theory Spec2Isabelle
  imports Main "HOL-Library.AList" "HOL-Library.Sublist"
begin

section \<open>Data model\<close>

text \<open>The exceptions that the modelled code can raise.\<close>

datatype py_error = ValueError | IndexError | OSError

text \<open>
  A cluster range is the pair \<open>(start, end)\<close> that \<open>get_file_clusters\<close> appends; the
  indices are Python integers, hence \<open>int\<close>. A file's extents are the list of its ranges.
  The cluster map is a Python \<open>dict\<close>: an association list in insertion order, which is the
  order in which \<open>.items()\<close> iterates.
\<close>

type_synonym cluster_range = "int \<times> int"
type_synonym extents = "cluster_range list"
type_synonym 'p cluster_map = "('p \<times> extents) list"

text \<open>The three style sheets a cluster button can carry.\<close>

datatype style = Yellow | Blue | Gray

text \<open>
  The fields of \<open>Window\<close> that the methods below read and write. \<open>cluster_buttons\<close> keeps,
  for every button created, its \<open>index\<close> property and its style sheet, in creation order.
  \<open>file_path\<close> is \<open>None\<close> until the first load.
\<close>

record 'p window =
  loaded_clusters :: "int set"
  cluster_group :: extents
  file_path :: "'p option"
  file_clusters_map :: "'p cluster_map"
  visible_range :: int
  cluster_buttons :: "(int \<times> style) list"

section \<open>Creating cluster buttons\<close>

text \<open>\<open>any(start <= index <= end for start, end in group)\<close>\<close>

fun in_extents :: "int \<Rightarrow> extents \<Rightarrow> bool" where
  "in_extents index [] = False"
| "in_extents index ((start, end) # rest) =
     (if start \<le> index \<and> index \<le> end then True else in_extents index rest)"

text \<open>The same test over all the values of the map.\<close>

fun in_any_file :: "int \<Rightarrow> 'p cluster_map \<Rightarrow> bool" where
  "in_any_file index [] = False"
| "in_any_file index ((p, file_clusters) # rest) =
     (if in_extents index file_clusters then True else in_any_file index rest)"

definition button_style :: "int \<Rightarrow> 'p window \<Rightarrow> style" where
  "button_style index w =
     (if in_extents index (cluster_group w) then Yellow
      else if in_any_file index (file_clusters_map w) then Blue
      else Gray)"

definition add_cluster_button :: "int \<Rightarrow> 'p window \<Rightarrow> 'p window" where
  "add_cluster_button index w =
     w\<lparr>cluster_buttons := cluster_buttons w @ [(index, button_style index w)]\<rparr>"

section \<open>The initial load around the highlighted extents\<close>

text \<open>
  The body of the inner loop of \<open>display_clusters_near_highlighted\<close>, for one
  \<open>cluster_index\<close>; \<open>disk_clusters\<close> is the value \<open>get_disk_clusters\<close> returned.
\<close>

definition display_index :: "int \<Rightarrow> int \<Rightarrow> 'p window \<Rightarrow> 'p window" where
  "display_index disk_clusters cluster_index w =
     (if 0 \<le> cluster_index \<and> cluster_index < disk_clusters
         \<and> cluster_index \<notin> loaded_clusters w
      then (add_cluster_button cluster_index w)
             \<lparr>loaded_clusters := insert cluster_index (loaded_clusters w)\<rparr>
      else w)"

text \<open>
  One round of the outer loop: \<open>range(start - visible_range, end + visible_range + 1)\<close> is the
  list \<open>[start - visible_range .. end + visible_range]\<close>. The search for the owner of the
  range in lines 246 to 250 only prints, so it leaves no trace here.
\<close>

definition display_range :: "int \<Rightarrow> cluster_range \<Rightarrow> 'p window \<Rightarrow> 'p window" where
  "display_range disk_clusters r w =
     fold (display_index disk_clusters)
       [fst r - visible_range w .. snd r + visible_range w] w"

definition display_clusters_near_highlighted :: "int \<Rightarrow> 'p window \<Rightarrow> 'p window" where
  "display_clusters_near_highlighted disk_clusters w =
     fold (display_range disk_clusters) (cluster_group w) w"

text \<open>
  The indices for which \<open>add_cluster_button\<close> ran between the state \<open>w\<close> and the later
  state \<open>w'\<close>, in the order of the calls.
\<close>

definition materialized :: "'p window \<Rightarrow> 'p window \<Rightarrow> int list" where
  "materialized w w' = map fst (drop (length (cluster_buttons w)) (cluster_buttons w'))"

text \<open>The indices of all the buttons of a window, in creation order.\<close>

definition button_indices :: "'p window \<Rightarrow> int list" where
  "button_indices w = map fst (cluster_buttons w)"

section \<open>Extending the loaded window on scroll\<close>

text \<open>The body of the loop of \<open>load_additional_clusters\<close>.\<close>

definition load_index :: "int \<Rightarrow> 'p window \<Rightarrow> 'p window" where
  "load_index cluster_index w =
     (if cluster_index \<notin> loaded_clusters w
      then (add_cluster_button cluster_index w)
             \<lparr>loaded_clusters := insert cluster_index (loaded_clusters w)\<rparr>
      else w)"

text \<open>
  \<open>load_additional_clusters(above)\<close>, with \<open>is_above\<close> for the argument \<open>above\<close> and
  \<open>disk_clusters\<close> the value that \<open>get_disk_clusters\<close> returned. The loop runs over
  \<open>range(start + 1, end + 1)\<close>, the list \<open>[start + 1 .. end]\<close>.
\<close>

definition load_additional_clusters :: "bool \<Rightarrow> int \<Rightarrow> 'p window \<Rightarrow> 'p window" where
  "load_additional_clusters is_above disk_clusters w =
     (let min_loaded = (if loaded_clusters w \<noteq> {} then Min (loaded_clusters w) else 0);
          max_loaded = (if loaded_clusters w \<noteq> {} then Max (loaded_clusters w) else 0);
          start = (if is_above then max (min_loaded - visible_range w) 0 else max_loaded + 1);
          end = (if is_above then min_loaded
                 else min (max_loaded + visible_range w) disk_clusters)
      in fold load_index [start + 1 .. end] w)"

section \<open>Resolving a click on a cluster\<close>

text \<open>
  The inner loop of the ownership search over the ranges of one file: the first range that
  holds the index sets the match and leaves this loop only.
\<close>

fun search_file ::
  "int \<Rightarrow> 'p \<Rightarrow> extents \<Rightarrow> extents \<Rightarrow> 'p option \<times> extents \<Rightarrow> 'p option \<times> extents" where
  "search_file cluster_index fp clusters [] found = found"
| "search_file cluster_index fp clusters ((start, end) # rest) found =
     (if start \<le> cluster_index \<and> cluster_index \<le> end then (Some fp, clusters)
      else search_file cluster_index fp clusters rest found)"

text \<open>The outer loop over \<open>file_clusters_map.items()\<close>; it goes on after a match.\<close>

fun search_map ::
  "int \<Rightarrow> 'p cluster_map \<Rightarrow> 'p option \<times> extents \<Rightarrow> 'p option \<times> extents" where
  "search_map cluster_index [] found = found"
| "search_map cluster_index ((fp, clusters) # rest) found =
     search_map cluster_index rest (search_file cluster_index fp clusters clusters found)"

text \<open>One restyling loop over the buttons: those inside \<open>grp\<close> get the style \<open>st\<close>.\<close>

definition restyle :: "extents \<Rightarrow> style \<Rightarrow> (int \<times> style) list \<Rightarrow> (int \<times> style) list" where
  "restyle grp st buttons =
     map (\<lambda>b. if in_extents (fst b) grp then (fst b, st) else b) buttons"

text \<open>
  What a click does: it opens the detail dialog with the clicked index, the path and the
  file's ranges (\<open>SameFileDetail\<close>), it moves the highlight to another file
  (\<open>OtherFileSelected\<close>), or it does nothing (\<open>Unowned\<close>).
\<close>

datatype 'p click_outcome =
  SameFileDetail int 'p extents
| OtherFileSelected 'p extents
| Unowned

text \<open>
  \<open>handle_cluster_click\<close>. A \<open>Path\<close> object is always true in a condition, so
  \<open>if clicked_file_path\<close> fails for \<open>None\<close> only.
\<close>

definition handle_cluster_click :: "int \<Rightarrow> 'p window \<Rightarrow> 'p click_outcome \<times> 'p window" where
  "handle_cluster_click cluster_index w =
     (case search_map cluster_index (file_clusters_map w) (None, []) of
        (None, clicked_cluster_group) \<Rightarrow> (Unowned, w)
      | (Some clicked_file_path, clicked_cluster_group) \<Rightarrow>
          if Some clicked_file_path = file_path w
          then (SameFileDetail cluster_index clicked_file_path clicked_cluster_group, w)
          else (OtherFileSelected clicked_file_path clicked_cluster_group,
                w\<lparr>cluster_buttons :=
                     restyle clicked_cluster_group Yellow
                       (restyle (cluster_group w) Blue (cluster_buttons w)),
                   file_path := Some clicked_file_path,
                   cluster_group := clicked_cluster_group\<rparr>))"

text \<open>\<open>self.file_clusters_map.get(file_path, [])\<close>\<close>

definition map_get :: "'p cluster_map \<Rightarrow> 'p \<Rightarrow> extents" where
  "map_get m p = (case map_of m p of None \<Rightarrow> [] | Some clusters \<Rightarrow> clusters)"

text \<open>
  The highlighted ranges are those the map stores for the highlighted path: what
  \<open>load_clusters\<close> sets up, and what a click keeps.
\<close>

definition highlight_consistent :: "'p window \<Rightarrow> bool" where
  "highlight_consistent w =
     (case file_path w of None \<Rightarrow> cluster_group w = []
      | Some p \<Rightarrow> cluster_group w = map_get (file_clusters_map w) p)"

text \<open>Two ranges share no cluster; two files share no cluster.\<close>

definition ranges_disjoint :: "cluster_range \<Rightarrow> cluster_range \<Rightarrow> bool" where
  "ranges_disjoint r r' = (min (snd r) (snd r') < max (fst r) (fst r'))"

definition extents_disjoint :: "extents \<Rightarrow> extents \<Rightarrow> bool" where
  "extents_disjoint g h = list_all (\<lambda>r. list_all (ranges_disjoint r) h) g"

text \<open>The files of the map that own a cluster, in iteration order.\<close>

definition owners :: "int \<Rightarrow> 'p cluster_map \<Rightarrow> ('p \<times> extents) list" where
  "owners cluster_index m = filter (\<lambda>f. in_extents cluster_index (snd f)) m"

text \<open>
  No two files of the map share a cluster: ranges of files with different paths are
  disjoint.
\<close>

definition cross_file_disjoint :: "'p cluster_map \<Rightarrow> bool" where
  "cross_file_disjoint m =
     (\<forall>f\<in>set m. \<forall>f'\<in>set m. fst f \<noteq> fst f' \<longrightarrow> extents_disjoint (snd f) (snd f'))"

section \<open>Strings of the command output\<close>

text \<open>
  The output of \<open>fsutil\<close> is decoded from code page 866, in which every byte is one
  character: a decoded string is the list of its bytes. The bytes that decode to white space
  are the ASCII ones and \<open>0xFF\<close>, the no-break space.
\<close>

definition is_space :: "char \<Rightarrow> bool" where
  "is_space c =
     (let n = (of_char c :: nat) in (9 \<le> n \<and> n \<le> 13) \<or> (28 \<le> n \<and> n \<le> 32) \<or> n = 255)"

text \<open>\<open>s.strip()\<close>\<close>

definition strip :: "string \<Rightarrow> string" where
  "strip s = rev (dropWhile is_space (rev (dropWhile is_space s)))"

text \<open>\<open>s.split()\<close>: the maximal runs without white space; \<open>cur\<close> is the run being read.\<close>

fun split_ws :: "string \<Rightarrow> string \<Rightarrow> string list" where
  "split_ws cur [] = (if cur = [] then [] else [cur])"
| "split_ws cur (c # cs) =
     (if is_space c then (if cur = [] then split_ws [] cs else cur # split_ws [] cs)
      else split_ws (cur @ [c]) cs)"

text \<open>\<open>s.split(sep)\<close> for a separator of one character: there is always a first piece.\<close>

fun split_on :: "char \<Rightarrow> string \<Rightarrow> string list" where
  "split_on sep [] = [[]]"
| "split_on sep (c # cs) =
     (if c = sep then [] # split_on sep cs
      else (case split_on sep cs of [] \<Rightarrow> [[c]] | piece # pieces \<Rightarrow> (c # piece) # pieces))"

text \<open>\<open>needle in hay\<close>\<close>

fun contains :: "string \<Rightarrow> string \<Rightarrow> bool" where
  "contains needle [] = (needle = [])"
| "contains needle (c # cs) = (if prefix needle (c # cs) then True else contains needle cs)"

text \<open>\<open>s.replace('/r/n', '/n')\<close>, with the slashes the source writes.\<close>

fun replace_rn :: "string \<Rightarrow> string" where
  "replace_rn (a # b # c # d # rest) =
     (if [a, b, c, d] = ''/r/n'' then ''/n'' @ replace_rn rest
      else a # replace_rn (b # c # d # rest))"
| "replace_rn s = s"

text \<open>The value of a digit or letter as \<open>int()\<close> reads it.\<close>

definition digit_value :: "char \<Rightarrow> nat option" where
  "digit_value c =
     (let n = (of_char c :: nat) in
      if 48 \<le> n \<and> n \<le> 57 then Some (n - 48)
      else if 97 \<le> n \<and> n \<le> 122 then Some (n - 87)
      else if 65 \<le> n \<and> n \<le> 90 then Some (n - 55)
      else None)"

text \<open>
  The digits of a literal: an underscore may stand between two digits only; \<open>prev\<close> is the
  character read before.
\<close>

fun scan_digits :: "nat \<Rightarrow> char \<Rightarrow> nat \<Rightarrow> string \<Rightarrow> nat option" where
  "scan_digits base prev acc [] = (if prev = CHR ''_'' then None else Some acc)"
| "scan_digits base prev acc (c # cs) =
     (if c = CHR ''_''
      then (if prev = CHR ''_'' then None else scan_digits base c acc cs)
      else (case digit_value c of
              None \<Rightarrow> None
            | Some d \<Rightarrow> if d < base then scan_digits base c (acc * base + d) cs else None))"

text \<open>
  \<open>int(s, base)\<close> for base 10 and 16: white space around, a sign, for base 16 the prefix
  \<open>0x\<close> and one underscore after it, then the digits. Everything else is a
  \<open>ValueError\<close>.
\<close>

definition py_int :: "nat \<Rightarrow> string \<Rightarrow> py_error + int" where
  "py_int base s =
     (let s1 = strip s;
          negative = (s1 \<noteq> [] \<and> hd s1 = CHR ''-'');
          s2 = (if s1 \<noteq> [] \<and> (hd s1 = CHR ''-'' \<or> hd s1 = CHR ''+'') then tl s1 else s1);
          s3 = (if base = 16 \<and> (prefix ''0x'' s2 \<or> prefix ''0X'' s2)
                then (if prefix ''_'' (drop 2 s2) then drop 3 s2 else drop 2 s2)
                else s2)
      in if s3 = [] \<or> hd s3 = CHR ''_'' then Inl ValueError
         else (case scan_digits base (CHR 0x00) 0 s3 of
                 None \<Rightarrow> Inl ValueError
               | Some n \<Rightarrow> Inr (if negative then - int n else int n)))"

section \<open>The extent probe\<close>

text \<open>
  What \<open>subprocess.run\<close> gave: it raised, or it completed with a return code and the
  standard output (decoded).
\<close>

datatype proc_result = Raised | Completed int string

text \<open>The word the source looks for in the output, as bytes of code page 866.\<close>

definition no_extents_word :: string where
  "no_extents_word =
     [CHR 0xAE, CHR 0xE2, CHR 0xE1, CHR 0xE3, CHR 0xE2, CHR 0xE1, CHR 0xE2, CHR 0xA2,
      CHR 0xE3, CHR 0xEE, CHR 0xE2]"

text \<open>\<open>[output[i:i + 6] for i in range(0, len(output), 6)]\<close>\<close>

function chunks6 :: "'a list \<Rightarrow> 'a list list" where
  "chunks6 xs = (if xs = [] then [] else take 6 xs # chunks6 (drop 6 xs))"
  by pat_completeness auto
termination
  by (relation "measure length") auto

declare chunks6.simps [simp del]

text \<open>
  One round of the parsing loop: \<open>cluster_data[-1]\<close> and \<open>cluster_data[3]\<close> raise
  \<open>IndexError\<close> out of range, \<open>int\<close> may raise \<open>ValueError\<close>.
\<close>

definition parse_extent :: "string list \<Rightarrow> py_error + cluster_range" where
  "parse_extent cluster_data =
     (if cluster_data = [] then Inl IndexError
      else (case py_int 16 (last cluster_data) of
              Inl e \<Rightarrow> Inl e
            | Inr start_cluster \<Rightarrow>
                if length cluster_data \<le> 3 then Inl IndexError
                else (case py_int 16 (cluster_data ! 3) of
                        Inl e \<Rightarrow> Inl e
                      | Inr cluster_count \<Rightarrow>
                          Inr (start_cluster, start_cluster + cluster_count - 1))))"

fun parse_extents :: "string list list \<Rightarrow> extents \<Rightarrow> py_error + extents" where
  "parse_extents [] result = Inr result"
| "parse_extents (cluster_data # rest) result =
     (case parse_extent cluster_data of
        Inl e \<Rightarrow> Inl e
      | Inr r \<Rightarrow> parse_extents rest (result @ [r]))"

text \<open>\<open>get_file_clusters\<close>: every exception ends in the empty list.\<close>

definition get_file_clusters :: "proc_result \<Rightarrow> extents" where
  "get_file_clusters command =
     (case command of
        Raised \<Rightarrow> []
      | Completed returncode stdout \<Rightarrow>
          if returncode \<noteq> 0 then []
          else (let output = split_ws [] (replace_rn (strip stdout)) in
                if output = [] \<or> contains no_extents_word (concat output) then []
                else (case parse_extents (chunks6 output) [] of
                        Inl e \<Rightarrow> []
                      | Inr result \<Rightarrow> result)))"

section \<open>The volume scan\<close>

text \<open>
  A directory entry as \<open>os.scandir\<close> yields it: a file with what the extent query gives for
  it, a directory with its listing (\<open>None\<close> when \<open>os.scandir\<close> raises on it), or an entry
  that is neither.
\<close>

datatype entry =
  FileEntry string proc_result
| DirEntry string "entry list option"
| OtherEntry string

definition valid_directory :: "string \<Rightarrow> bool" where
  "valid_directory path =
     (\<not> (prefix ''$'' path \<or> prefix ''System Volume Information'' path))"

text \<open>\<open>entry.path\<close>: the scanned path, a backslash unless it ends in a separator, the name.\<close>

definition entry_path :: "string \<Rightarrow> string \<Rightarrow> string" where
  "entry_path root name =
     (if root \<noteq> [] \<and> (last root = CHR 0x5C \<or> last root = CHR ''/'' \<or> last root = CHR '':'')
      then root @ name else root @ [CHR 0x5C] @ name)"

text \<open>
  \<open>scan_directory\<close>: the dictionary is passed through; an exception of \<open>os.scandir\<close> is not
  caught. \<open>scan_entries\<close> is the loop over the listing.
\<close>

fun scan_directory ::
    "string \<Rightarrow> entry list option \<Rightarrow> string cluster_map \<Rightarrow> py_error + string cluster_map"
  and scan_entries ::
    "string \<Rightarrow> entry list \<Rightarrow> string cluster_map \<Rightarrow> py_error + string cluster_map" where
  "scan_directory root None file_clusters = Inl OSError"
| "scan_directory root (Some entries) file_clusters = scan_entries root entries file_clusters"
| "scan_entries root [] file_clusters = Inr file_clusters"
| "scan_entries root (DirEntry name listing # rest) file_clusters =
     (if valid_directory name
      then (case scan_directory (entry_path root name) listing file_clusters of
              Inl e \<Rightarrow> Inl e
            | Inr file_clusters' \<Rightarrow> scan_entries root rest file_clusters')
      else scan_entries root rest file_clusters)"
| "scan_entries root (FileEntry name command # rest) file_clusters =
     (let clusters = get_file_clusters command in
      if clusters \<noteq> []
      then scan_entries root rest (AList.update (entry_path root name) clusters file_clusters)
      else scan_entries root rest file_clusters)"
| "scan_entries root (OtherEntry name # rest) file_clusters =
     scan_entries root rest file_clusters"

text \<open>
  The tasks submitted for the directories of the disk's root, run here one after the other
  in the order of submission; \<open>future.result()\<close> raises again what a task raised.
\<close>

fun run_tasks ::
  "string \<Rightarrow> entry list \<Rightarrow> string cluster_map \<Rightarrow> py_error + string cluster_map" where
  "run_tasks disk_name [] file_clusters = Inr file_clusters"
| "run_tasks disk_name (DirEntry name listing # rest) file_clusters =
     (if valid_directory name
      then (case scan_directory (entry_path disk_name name) listing file_clusters of
              Inl e \<Rightarrow> Inl e
            | Inr file_clusters' \<Rightarrow> run_tasks disk_name rest file_clusters')
      else run_tasks disk_name rest file_clusters)"
| "run_tasks disk_name (FileEntry name command # rest) file_clusters =
     run_tasks disk_name rest file_clusters"
| "run_tasks disk_name (OtherEntry name # rest) file_clusters =
     run_tasks disk_name rest file_clusters"

text \<open>
  \<open>get_files_with_clusters\<close>, from the name of the disk and the listing of its root;
  \<open>mk_path\<close> is the constructor \<open>Path\<close> of the final dictionary comprehension.
\<close>

definition get_files_with_clusters ::
  "(string \<Rightarrow> 'p) \<Rightarrow> string \<Rightarrow> entry list option \<Rightarrow> py_error + 'p cluster_map" where
  "get_files_with_clusters mk_path disk_name listing =
     (case listing of
        None \<Rightarrow> Inl OSError
      | Some entries \<Rightarrow>
          (case run_tasks disk_name entries [] of
             Inl e \<Rightarrow> Inl e
           | Inr file_clusters \<Rightarrow>
               Inr (fold (\<lambda>item. AList.update (mk_path (fst item)) (snd item))
                      file_clusters [])))"

section \<open>The total cluster count\<close>

text \<open>The words the source looks for in a line, as bytes of code page 866.\<close>

definition total_clusters_words :: string where
  "total_clusters_words =
     [CHR 0x82, CHR 0xE1, CHR 0xA5, CHR 0xA3, CHR 0xAE, CHR 0x20, CHR 0xAA, CHR 0xAB,
      CHR 0xA0, CHR 0xE1, CHR 0xE2, CHR 0xA5, CHR 0xE0, CHR 0xAE, CHR 0xA2]"

text \<open>
  The loop over the elements of one line: it stops at the first element that starts with a
  parenthesis. The elements come from \<open>split()\<close>, so none is empty.
\<close>

fun collect_elements :: "string list \<Rightarrow> string \<Rightarrow> string" where
  "collect_elements [] total_clusters_parse = total_clusters_parse"
| "collect_elements (element # rest) total_clusters_parse =
     (if element \<noteq> [] \<and> hd element = CHR ''(''  then total_clusters_parse
      else collect_elements rest (total_clusters_parse @ element))"

text \<open>The loop over the lines; \<open>line.split(':')[1]\<close> raises when the line has no colon.\<close>

fun parse_lines :: "string list \<Rightarrow> string \<Rightarrow> py_error + string" where
  "parse_lines [] total_clusters_parse = Inr total_clusters_parse"
| "parse_lines (line # rest) total_clusters_parse =
     (if contains total_clusters_words line
      then (case split_on (CHR '':'') line of
              piece # field # pieces \<Rightarrow>
                parse_lines rest
                  (collect_elements (split_ws [] (strip field)) total_clusters_parse)
            | _ \<Rightarrow> Inl IndexError)
      else parse_lines rest total_clusters_parse)"

text \<open>\<open>get_disk_clusters\<close>: nothing is caught here.\<close>

definition get_disk_clusters :: "proc_result \<Rightarrow> py_error + int" where
  "get_disk_clusters command =
     (case command of
        Raised \<Rightarrow> Inl OSError
      | Completed returncode stdout \<Rightarrow>
          if returncode \<noteq> 0 then Inr 0
          else (case parse_lines (split_on (CHR 0x0A) (strip stdout)) [] of
                  Inl e \<Rightarrow> Inl e
                | Inr total_clusters_parse \<Rightarrow> py_int 10 total_clusters_parse))"

section \<open>Properties of the initial load\<close>


lemma display_index_fields [simp]:
  "cluster_group (display_index d i w) = cluster_group w"
  "visible_range (display_index d i w) = visible_range w"
  "file_path (display_index d i w) = file_path w"
  "file_clusters_map (display_index d i w) = file_clusters_map w"
  by (simp_all add: display_index_def add_cluster_button_def)

lemma display_index_loaded:
  "loaded_clusters (display_index d i w) =
     (if 0 \<le> i \<and> i < d then insert i (loaded_clusters w) else loaded_clusters w)"
  by (auto simp: display_index_def add_cluster_button_def)

lemma display_index_buttons:
  "map fst (cluster_buttons (display_index d i w)) =
     map fst (cluster_buttons w) @ (if 0 \<le> i \<and> i < d \<and> i \<notin> loaded_clusters w then [i] else [])"
  by (simp add: display_index_def add_cluster_button_def)

lemma materialized_append:
  "button_indices w' = button_indices w @ ys \<Longrightarrow> materialized w w' = ys"
  by (simp add: materialized_def button_indices_def drop_map [symmetric])

lemma fold_display_index_fields [simp]:
  "cluster_group (fold (display_index d) xs w) = cluster_group w"
  "visible_range (fold (display_index d) xs w) = visible_range w"
  "file_path (fold (display_index d) xs w) = file_path w"
  "file_clusters_map (fold (display_index d) xs w) = file_clusters_map w"
  by (induction xs arbitrary: w) simp_all

lemma fold_display_index_loaded:
  "loaded_clusters (fold (display_index d) xs w) =
     loaded_clusters w \<union> {i \<in> set xs. 0 \<le> i \<and> i < d}"
  by (induction xs arbitrary: w) (auto simp: display_index_loaded)

lemma fold_display_index_buttons:
  "distinct xs \<Longrightarrow>
   button_indices (fold (display_index d) xs w) =
     button_indices w @ filter (\<lambda>i. 0 \<le> i \<and> i < d \<and> i \<notin> loaded_clusters w) xs"
proof (induction xs arbitrary: w)
  case Nil
  then show ?case by simp
next
  case (Cons x xs)
  have same: "filter (\<lambda>i. 0 \<le> i \<and> i < d \<and> i \<notin> loaded_clusters (display_index d x w)) xs
      = filter (\<lambda>i. 0 \<le> i \<and> i < d \<and> i \<notin> loaded_clusters w) xs"
    using Cons.prems by (intro filter_cong) (auto simp: display_index_loaded)
  from Cons show ?case
    by (simp add: same) (simp add: button_indices_def display_index_buttons)
qed

lemma display_range_fields [simp]:
  "cluster_group (display_range d r w) = cluster_group w"
  "visible_range (display_range d r w) = visible_range w"
  "file_path (display_range d r w) = file_path w"
  "file_clusters_map (display_range d r w) = file_clusters_map w"
  by (simp_all add: display_range_def)

lemma display_range_loaded:
  "loaded_clusters (display_range d r w) =
     loaded_clusters w \<union>
       ({fst r - visible_range w .. snd r + visible_range w} \<inter> {0..<d})"
  by (auto simp: display_range_def fold_display_index_loaded)

lemma display_range_buttons:
  "button_indices (display_range d r w) =
     button_indices w @
       filter (\<lambda>i. 0 \<le> i \<and> i < d \<and> i \<notin> loaded_clusters w)
         [fst r - visible_range w .. snd r + visible_range w]"
  by (simp add: display_range_def fold_display_index_buttons)

lemma fold_display_range_fields [simp]:
  "cluster_group (fold (display_range d) g w) = cluster_group w"
  "visible_range (fold (display_range d) g w) = visible_range w"
  "file_path (fold (display_range d) g w) = file_path w"
  "file_clusters_map (fold (display_range d) g w) = file_clusters_map w"
  by (induction g arbitrary: w) simp_all

lemma fold_display_range_loaded:
  "loaded_clusters (fold (display_range d) g w) =
     loaded_clusters w \<union>
       ((\<Union>r\<in>set g. {fst r - visible_range w .. snd r + visible_range w}) \<inter> {0..<d})"
proof (induction g arbitrary: w)
  case Nil
  show ?case by simp
next
  case (Cons r g)
  have "loaded_clusters (fold (display_range d) (r # g) w) =
      (loaded_clusters w \<union> ({fst r - visible_range w .. snd r + visible_range w} \<inter> {0..<d}))
        \<union> ((\<Union>r\<in>set g. {fst r - visible_range w .. snd r + visible_range w}) \<inter> {0..<d})"
    by (simp add: Cons.IH display_range_loaded)
  also have "\<dots> = loaded_clusters w \<union>
       ((\<Union>r\<in>set (r # g). {fst r - visible_range w .. snd r + visible_range w}) \<inter> {0..<d})"
    by (simp only: list.set UN_insert) blast
  finally show ?case .
qed

lemma set_filter_upto:
  "set (filter (\<lambda>i. 0 \<le> i \<and> i < d \<and> i \<notin> L) [a..b]) = ({a..b} \<inter> {0..<d}) - L"
  by auto

lemma fold_display_range_buttons:
  "\<exists>ys. button_indices (fold (display_range d) g w) = button_indices w @ ys
     \<and> distinct ys
     \<and> set ys =
         ((\<Union>r\<in>set g. {fst r - visible_range w .. snd r + visible_range w}) \<inter> {0..<d})
           - loaded_clusters w"
proof (induction g arbitrary: w)
  case Nil
  show ?case by simp
next
  case (Cons r g)
  define w1 where "w1 = display_range d r w"
  define X where "X = {fst r - visible_range w .. snd r + visible_range w}"
  define U where "U = (\<Union>r\<in>set g. {fst r - visible_range w .. snd r + visible_range w})"
  define L where "L = loaded_clusters w"
  define D where "D = {0..<d}"
  define xs where "xs = filter (\<lambda>i. 0 \<le> i \<and> i < d \<and> i \<notin> loaded_clusters w)
         [fst r - visible_range w .. snd r + visible_range w]"
  have vr: "visible_range w1 = visible_range w"
    by (simp add: w1_def)
  have L1: "loaded_clusters w1 = L \<union> (X \<inter> D)"
    by (simp add: w1_def display_range_loaded X_def L_def D_def)
  obtain ys where ys: "button_indices (fold (display_range d) g w1) = button_indices w1 @ ys"
    "distinct ys" "set ys = (U \<inter> D) - (L \<union> (X \<inter> D))"
    using Cons.IH [of w1] unfolding vr L1 U_def D_def by blast
  have sxs: "set xs = (X \<inter> D) - L"
    unfolding xs_def X_def D_def L_def by (rule set_filter_upto)
  have dxs: "distinct xs"
    by (simp add: xs_def)
  have 1: "button_indices (fold (display_range d) (r # g) w) = button_indices w @ (xs @ ys)"
    using ys(1) by (simp add: w1_def xs_def display_range_buttons)
  have 2: "distinct (xs @ ys)"
    using dxs ys(2) sxs ys(3) by (simp only: distinct_append) blast
  have "set (xs @ ys) = ((X \<union> U) \<inter> D) - L"
    using sxs ys(3) by (simp only: set_append) blast
  also have "X \<union> U = (\<Union>r\<in>set (r # g). {fst r - visible_range w .. snd r + visible_range w})"
    by (simp only: X_def U_def list.set UN_insert)
  finally have 3: "set (xs @ ys) =
     ((\<Union>r\<in>set (r # g). {fst r - visible_range w .. snd r + visible_range w}) \<inter> D) - L" .
  from 1 2 3 show ?case unfolding D_def L_def by blast
qed

lemma display_fields [simp]:
  "cluster_group (display_clusters_near_highlighted d w) = cluster_group w"
  "visible_range (display_clusters_near_highlighted d w) = visible_range w"
  "file_path (display_clusters_near_highlighted d w) = file_path w"
  "file_clusters_map (display_clusters_near_highlighted d w) = file_clusters_map w"
  by (simp_all add: display_clusters_near_highlighted_def)

lemma UN_ranges_split:
  "(\<Union>(s, e)\<in>set g. {s - v .. e + v}) = (\<Union>r\<in>set g. {fst r - v .. snd r + (v::int)})"
  by (simp add: case_prod_beta)

text \<open>
  Claim C3. Whatever the highlighted ranges, the cluster count of the disk and the set
  already loaded, the initial load creates a button for exactly the indices that lie in
  \<open>[s - visible_range, e + visible_range]\<close> for some highlighted range \<open>(s, e)\<close>, that lie in
  \<open>[0, disk_clusters)\<close> and that were not loaded before, each of them once, and it adds them
  to the loaded set. For the ranges \<open>[(100, 104)]\<close>, 1000 clusters, a margin of 5 and nothing
  loaded, these are the 15 indices from 95 to 109, in this order.
\<close>

theorem initial_load_materializes:
  "set (materialized w (display_clusters_near_highlighted disk_clusters w)) =
     ((\<Union>(s, e)\<in>set (cluster_group w). {s - visible_range w .. e + visible_range w})
        \<inter> {0..<disk_clusters}) - loaded_clusters w
   \<and> distinct (materialized w (display_clusters_near_highlighted disk_clusters w))
   \<and> loaded_clusters (display_clusters_near_highlighted disk_clusters w) =
       loaded_clusters w \<union> set (materialized w (display_clusters_near_highlighted disk_clusters w))
   \<and> (cluster_group w = [(100, 104)] \<and> visible_range w = 5 \<and> loaded_clusters w = {}
        \<longrightarrow> materialized w (display_clusters_near_highlighted 1000 w) = [95..109]
          \<and> length (materialized w (display_clusters_near_highlighted 1000 w)) = 15)"
proof -
  let ?w' = "display_clusters_near_highlighted disk_clusters w"
  obtain ys where ys: "button_indices ?w' = button_indices w @ ys" "distinct ys"
    "set ys = ((\<Union>r\<in>set (cluster_group w).
                 {fst r - visible_range w .. snd r + visible_range w}) \<inter> {0..<disk_clusters})
              - loaded_clusters w"
    using fold_display_range_buttons [of disk_clusters "cluster_group w" w]
    unfolding display_clusters_near_highlighted_def by blast
  have m: "materialized w ?w' = ys"
    using ys(1) by (rule materialized_append)
  have a: "set (materialized w ?w') =
     ((\<Union>(s, e)\<in>set (cluster_group w). {s - visible_range w .. e + visible_range w})
        \<inter> {0..<disk_clusters}) - loaded_clusters w"
    unfolding m UN_ranges_split by (rule ys(3))
  have b: "distinct (materialized w ?w')"
    unfolding m by (rule ys(2))
  have "loaded_clusters ?w' = loaded_clusters w \<union>
      ((\<Union>r\<in>set (cluster_group w).
                 {fst r - visible_range w .. snd r + visible_range w}) \<inter> {0..<disk_clusters})"
    by (simp add: display_clusters_near_highlighted_def fold_display_range_loaded)
  then have c: "loaded_clusters ?w' = loaded_clusters w \<union> set (materialized w ?w')"
    unfolding m ys(3) by blast
  have d: "materialized w (display_clusters_near_highlighted 1000 w) = [95..109]
          \<and> length (materialized w (display_clusters_near_highlighted 1000 w)) = 15"
    if h: "cluster_group w = [(100, 104)]" "visible_range w = 5" "loaded_clusters w = {}"
  proof -
    have "button_indices (display_clusters_near_highlighted 1000 w) =
        button_indices w @ filter (\<lambda>i. 0 \<le> i \<and> i < 1000 \<and> i \<notin> {}) [95..109]"
      by (simp add: display_clusters_near_highlighted_def h display_range_buttons)
    also have "filter (\<lambda>i. 0 \<le> i \<and> i < 1000 \<and> i \<notin> {}) [95..109] = [95..109::int]"
      by (rule filter_True) simp
    finally have "materialized w (display_clusters_near_highlighted 1000 w) = [95..109]"
      by (rule materialized_append)
    then show ?thesis by simp
  qed
  from a b c d show ?thesis by blast
qed

text \<open>The scenario of claim C3 on a window whose map holds the one file.\<close>

theorem initial_load_materializes_witness:
  "materialized
     \<lparr>loaded_clusters = {}, cluster_group = [(100, 104)], file_path = Some ''A'',
      file_clusters_map = [(''A'', [(100, 104)])], visible_range = 5, cluster_buttons = []\<rparr>
     (display_clusters_near_highlighted 1000
       \<lparr>loaded_clusters = {}, cluster_group = [(100, 104)], file_path = Some ''A'',
        file_clusters_map = [(''A'', [(100, 104)])], visible_range = 5, cluster_buttons = []\<rparr>)
     = [95, 96, 97, 98, 99, 100, 101, 102, 103, 104, 105, 106, 107, 108, 109]"
  using initial_load_materializes [of
     "\<lparr>loaded_clusters = {}, cluster_group = [(100, 104)], file_path = Some ''A'',
      file_clusters_map = [(''A'', [(100, 104)])], visible_range = 5, cluster_buttons = []\<rparr>" 1000]
  by (simp add: upto_rec1)

text \<open>
  Claim C4. A second initial load right after the first, with the same cluster count and
  the loaded set as the first left it, creates no button.
\<close>

theorem initial_load_idempotent:
  "materialized (display_clusters_near_highlighted disk_clusters w)
     (display_clusters_near_highlighted disk_clusters (display_clusters_near_highlighted disk_clusters w)) = []"
proof -
  let ?w1 = "display_clusters_near_highlighted disk_clusters w"
  let ?A = "(\<Union>r\<in>set (cluster_group w).
                 {fst r - visible_range w .. snd r + visible_range w}) \<inter> {0..<disk_clusters}"
  have l1: "loaded_clusters ?w1 = loaded_clusters w \<union> ?A"
    by (simp add: display_clusters_near_highlighted_def fold_display_range_loaded)
  obtain ys where ys:
    "button_indices (display_clusters_near_highlighted disk_clusters ?w1) = button_indices ?w1 @ ys"
    "set ys = ?A - loaded_clusters ?w1"
    using fold_display_range_buttons [of disk_clusters "cluster_group ?w1" ?w1]
    unfolding display_clusters_near_highlighted_def [of disk_clusters ?w1] by auto
  have "set ys = {}"
    unfolding ys(2) l1 by blast
  then have "ys = []" by simp
  with ys(1) show ?thesis
    by (simp add: materialized_append)
qed

lemma display_index_zero: "display_index 0 i w = w"
  by (auto simp: display_index_def)

lemma fold_display_index_zero: "fold (display_index 0) xs w = w"
  by (induction xs) (simp_all add: display_index_zero)

lemma fold_display_range_zero: "fold (display_range 0) g w = w"
  by (induction g) (simp_all add: display_range_def fold_display_index_zero)

text \<open>
  Claim C5. With a cluster count of 0 the initial load changes nothing: no button is
  created and the loaded set stays as it was, whatever the highlighted ranges.
\<close>

theorem initial_load_unknown_total:
  "display_clusters_near_highlighted 0 w = w
   \<and> materialized w (display_clusters_near_highlighted 0 w) = []"
  by (simp add: display_clusters_near_highlighted_def fold_display_range_zero materialized_def)

section \<open>Extending the loaded window: what the code does\<close>

text \<open>
  The buttons that one call of \<open>load_additional_clusters\<close> creates, for a loaded set that is
  finite and not empty: downwards the indices from \<open>max_loaded + 2\<close> to
  \<open>min (max_loaded + visible_range) disk_clusters\<close>, upwards those from
  \<open>max (min_loaded - visible_range) 0 + 1\<close> to \<open>min_loaded - 1\<close>.
\<close>

lemma load_index_loaded: "loaded_clusters (load_index i w) = insert i (loaded_clusters w)"
  by (auto simp: load_index_def add_cluster_button_def)

lemma load_index_buttons:
  "button_indices (load_index i w) =
     button_indices w @ (if i \<notin> loaded_clusters w then [i] else [])"
  by (simp add: load_index_def add_cluster_button_def button_indices_def)

lemma fold_load_index_buttons:
  "distinct xs \<Longrightarrow>
   button_indices (fold load_index xs w) =
     button_indices w @ filter (\<lambda>i. i \<notin> loaded_clusters w) xs"
proof (induction xs arbitrary: w)
  case Nil
  then show ?case by simp
next
  case (Cons x xs)
  have same: "filter (\<lambda>i. i \<notin> loaded_clusters (load_index x w)) xs
      = filter (\<lambda>i. i \<notin> loaded_clusters w) xs"
    using Cons.prems by (intro filter_cong) (auto simp: load_index_loaded)
  from Cons show ?case
    by (simp add: same load_index_buttons)
qed

lemma extend_below_materialized:
  assumes "finite (loaded_clusters w)" "loaded_clusters w \<noteq> {}"
  shows "materialized w (load_additional_clusters False disk_clusters w) =
     [Max (loaded_clusters w) + 2 ..
        min (Max (loaded_clusters w) + visible_range w) disk_clusters]"
proof -
  define xs where "xs = [Max (loaded_clusters w) + 2 ..
        min (Max (loaded_clusters w) + visible_range w) disk_clusters]"
  have "i \<notin> loaded_clusters w" if "i \<in> set xs" for i
  proof
    assume "i \<in> loaded_clusters w"
    with assms(1) have "i \<le> Max (loaded_clusters w)" by simp
    with that show False by (simp add: xs_def)
  qed
  then have f: "filter (\<lambda>i. i \<notin> loaded_clusters w) xs = xs"
    by (intro filter_True) blast
  have d: "distinct xs"
    by (simp add: xs_def)
  have "Max (loaded_clusters w) + 1 + 1 = Max (loaded_clusters w) + 2"
    by simp
  then have "load_additional_clusters False disk_clusters w = fold load_index xs w"
    using assms(2) by (simp add: load_additional_clusters_def Let_def xs_def algebra_simps)
  then have "button_indices (load_additional_clusters False disk_clusters w) =
      button_indices w @ xs"
    by (simp only: fold_load_index_buttons [OF d] f)
  then show ?thesis
    unfolding xs_def by (rule materialized_append)
qed

lemma extend_above_materialized:
  assumes "finite (loaded_clusters w)" "loaded_clusters w \<noteq> {}"
  shows "materialized w (load_additional_clusters True disk_clusters w) =
     [max (Min (loaded_clusters w) - visible_range w) 0 + 1 .. Min (loaded_clusters w) - 1]"
proof -
  define m where "m = Min (loaded_clusters w)"
  define a where "a = max (m - visible_range w) 0 + 1"
  have m: "m \<in> loaded_clusters w"
    unfolding m_def using assms by (rule Min_in)
  have below: "i \<notin> loaded_clusters w" if "i < m" for i
  proof
    assume "i \<in> loaded_clusters w"
    with assms(1) have "m \<le> i" by (simp add: m_def)
    with that show False by simp
  qed
  have f: "filter (\<lambda>i. i \<notin> loaded_clusters w) [a .. m] = [a .. m - 1]"
  proof (cases "a \<le> m")
    case True
    then have "[a .. m] = [a .. m - 1] @ [m]"
      by (simp add: upto_rec2)
    moreover have "filter (\<lambda>i. i \<notin> loaded_clusters w) [a .. m - 1] = [a .. m - 1]"
    proof (rule filter_True, rule ballI)
      fix i assume "i \<in> set [a .. m - 1]"
      then have "i < m" by simp
      then show "i \<notin> loaded_clusters w" by (rule below)
    qed
    ultimately show ?thesis
      using m by simp
  next
    case False
    then show ?thesis by simp
  qed
  have d: "distinct [a .. m]"
    by simp
  have "load_additional_clusters True disk_clusters w = fold load_index [a .. m] w"
    using assms(2)
    by (simp add: load_additional_clusters_def Let_def a_def m_def)
  then have "button_indices (load_additional_clusters True disk_clusters w) =
      button_indices w @ [a .. m - 1]"
    by (simp only: fold_load_index_buttons [OF d] f)
  then show ?thesis
    unfolding a_def m_def by (rule materialized_append)
qed

text \<open>
  Claim C1, evaluated. After the initial load of the scenario of claim C3 the loaded set is
  \<open>{95..109}\<close>. Scrolling down then creates the buttons 111 to 114: the loop starts at
  \<open>start + 1\<close> with \<open>start = max_loaded + 1\<close>, so that index 110, the first one below the
  window, is passed over and stays unloaded, while the claim asks for 110 to 114.
  Scrolling up from the same state creates 91 to 94 and passes over 90.
\<close>

theorem extend_below_skips_next_index:
  "materialized
     (display_clusters_near_highlighted 1000
         \<lparr>loaded_clusters = {}, cluster_group = [(100, 104)], file_path = Some ''A'',
          file_clusters_map = [(''A'', [(100, 104)])], visible_range = 5,
          cluster_buttons = []\<rparr>)
     (load_additional_clusters False 1000
       (display_clusters_near_highlighted 1000
         \<lparr>loaded_clusters = {}, cluster_group = [(100, 104)], file_path = Some ''A'',
          file_clusters_map = [(''A'', [(100, 104)])], visible_range = 5,
          cluster_buttons = []\<rparr>))
     = [111, 112, 113, 114]
   \<and> materialized
     (display_clusters_near_highlighted 1000
         \<lparr>loaded_clusters = {}, cluster_group = [(100, 104)], file_path = Some ''A'',
          file_clusters_map = [(''A'', [(100, 104)])], visible_range = 5,
          cluster_buttons = []\<rparr>)
     (load_additional_clusters True 1000
       (display_clusters_near_highlighted 1000
         \<lparr>loaded_clusters = {}, cluster_group = [(100, 104)], file_path = Some ''A'',
          file_clusters_map = [(''A'', [(100, 104)])], visible_range = 5,
          cluster_buttons = []\<rparr>))
     = [91, 92, 93, 94]"
  by code_simp

text \<open>
  Claim C2, evaluated. On a disk of 112 clusters the initial load of the same file loads
  \<open>{95..109}\<close>; scrolling down then creates the buttons 111 and 112, and 112 is no index
  of the disk: the upper end is cut at \<open>disk_clusters\<close> and the loop runs up to it
  inclusively, whereas the initial load tests \<open>cluster_index < disk_clusters\<close>.
\<close>

theorem extend_below_reaches_disk_clusters:
  "materialized
     (display_clusters_near_highlighted 112
         \<lparr>loaded_clusters = {}, cluster_group = [(100, 104)], file_path = Some ''A'',
          file_clusters_map = [(''A'', [(100, 104)])], visible_range = 5,
          cluster_buttons = []\<rparr>)
     (load_additional_clusters False 112
       (display_clusters_near_highlighted 112
         \<lparr>loaded_clusters = {}, cluster_group = [(100, 104)], file_path = Some ''A'',
          file_clusters_map = [(''A'', [(100, 104)])], visible_range = 5,
          cluster_buttons = []\<rparr>))
     = [111, 112]"
  by code_simp

section \<open>The volume scan and the cluster count: what the code does\<close>

text \<open>
  Claim C7, evaluated. A directory \<open>a\<close> holds a readable file and a subdirectory \<open>b\<close> that
  \<open>os.scandir\<close> cannot read. The exception leaves \<open>scan_directory\<close>, comes back from
  \<open>future.result()\<close> and ends the scan: no map is returned, whereas the claim asks that the
  entry be skipped.
\<close>

theorem scan_aborts_on_unreadable_directory:
  "get_files_with_clusters id (''C:'' @ [CHR 0x5C])
     (Some [DirEntry ''a''
        (Some [FileEntry ''f'' (Completed 0 ''VCN: 0x0 Clusters: 0x2 LCN: 0x10''),
               DirEntry ''b'' None])])
     = Inl OSError"
  by code_simp

text \<open>
  Claim C8, evaluated. When \<open>fsutil\<close> succeeds and no line of its output holds the words
  looked for (an output in another language, or an empty one), \<open>int\<close> is applied to the
  empty string and \<open>get_disk_clusters\<close> raises \<open>ValueError\<close>, whereas the claim asks for an
  integer and no exception.
\<close>

theorem disk_clusters_raises_on_unmatched_output:
  "get_disk_clusters (Completed 0 ''Total Clusters :   1000'') = Inl ValueError
   \<and> get_disk_clusters (Completed 0 []) = Inl ValueError"
  by code_simp

section \<open>Properties of click resolution\<close>


lemma search_file_eq:
  "search_file c fp cl rs found = (if in_extents c rs then (Some fp, cl) else found)"
  by (induction rs) auto

lemma owners_Nil: "owners c [] = []"
  by (simp add: owners_def)

lemma owners_Cons:
  "owners c (f # m) = (if in_extents c (snd f) then f # owners c m else owners c m)"
  by (simp add: owners_def)

lemma search_map_eq:
  "search_map c m found =
     (if owners c m = [] then found
      else (Some (fst (last (owners c m))), snd (last (owners c m))))"
proof (induction m arbitrary: found)
  case Nil
  show ?case by (simp add: owners_def)
next
  case (Cons f m)
  obtain fp cl where f: "f = (fp, cl)" by (cases f)
  show ?case
    by (simp add: f Cons.IH search_file_eq owners_Cons)
qed

lemma in_any_file_owners: "in_any_file c m = (owners c m \<noteq> [])"
  by (induction m) (auto simp: owners_Cons owners_Nil)

lemma handle_click_owner:
  assumes "owners c (file_clusters_map w) = os @ [(p, g)]"
  shows "handle_cluster_click c w =
     (if Some p = file_path w then (SameFileDetail c p g, w)
      else (OtherFileSelected p g,
            w\<lparr>cluster_buttons :=
                 restyle g Yellow (restyle (cluster_group w) Blue (cluster_buttons w)),
               file_path := Some p, cluster_group := g\<rparr>))"
  by (simp add: handle_cluster_click_def search_map_eq assms)

lemma handle_click_unowned:
  assumes "owners c (file_clusters_map w) = []"
  shows "handle_cluster_click c w = (Unowned, w)"
  by (simp add: handle_cluster_click_def search_map_eq assms)


lemma in_extents_iff: "in_extents c g = (\<exists>r\<in>set g. fst r \<le> c \<and> c \<le> snd r)"
  by (induction g) auto

lemma extents_disjoint_not_both:
  assumes "extents_disjoint g h" "in_extents c g"
  shows "\<not> in_extents c h"
proof
  assume "in_extents c h"
  then obtain r' where r': "r' \<in> set h" "fst r' \<le> c" "c \<le> snd r'"
    unfolding in_extents_iff by blast
  from assms(2) obtain r where r: "r \<in> set g" "fst r \<le> c" "c \<le> snd r"
    unfolding in_extents_iff by blast
  from assms(1) r(1) r'(1) have "ranges_disjoint r r'"
    by (simp add: extents_disjoint_def list_all_iff)
  with r r' show False
    by (simp add: ranges_disjoint_def)
qed

lemma owners_append: "owners c (m @ m') = owners c m @ owners c m'"
  by (simp add: owners_def)

lemma owners_empty:
  "(\<And>f. f \<in> set m \<Longrightarrow> \<not> in_extents c (snd f)) \<Longrightarrow> owners c m = []"
  by (simp add: owners_def filter_empty_conv)

lemma unique_owner:
  assumes d: "distinct (map fst m)" and x: "cross_file_disjoint m"
    and f: "(p, g) \<in> set m" and c: "in_extents c g"
  shows "owners c m = [(p, g)]"
proof -
  from f obtain before after where m: "m = before @ (p, g) # after"
    by (auto dest: split_list)
  have other: "\<not> in_extents c (snd f')" if "f' \<in> set before \<union> set after" for f'
  proof -
    from that d have "fst f' \<noteq> p"
      by (auto simp: m)
    moreover from that have "f' \<in> set m"
      by (auto simp: m)
    ultimately have "extents_disjoint g (snd f')"
      using x f unfolding cross_file_disjoint_def by fastforce
    then show ?thesis
      using c by (rule extents_disjoint_not_both)
  qed
  have "owners c before = []" "owners c after = []"
    using other by (simp_all add: owners_empty)
  then show ?thesis
    using c by (simp add: m owners_append owners_Cons owners_Nil)
qed

text \<open>
  Claim C10. Whether or not files share clusters, the ownership search ends on the last
  file, in the iteration order of the map, that has a range holding the clicked cluster:
  files before it may own the cluster too. The click then opens the detail dialog when that
  file is the highlighted one and moves the highlight to it otherwise. When one file only
  owns the cluster, this is that file.
\<close>

theorem click_selects_last_owner:
  assumes "file_clusters_map w = before @ (p, g) # after"
    and "in_extents c g" and "\<not> in_any_file c after"
  shows "search_map c (file_clusters_map w) (None, []) = (Some p, g)
    \<and> fst (handle_cluster_click c w) =
        (if Some p = file_path w then SameFileDetail c p g else OtherFileSelected p g)"
proof -
  have "owners c (file_clusters_map w) = owners c before @ [(p, g)]"
    using assms by (simp add: owners_append owners_Cons in_any_file_owners)
  then show ?thesis
    by (simp add: search_map_eq handle_click_owner)
qed

text \<open>
  Cluster 17 lies in the highlighted file \<open>A\<close> and in \<open>B\<close>, which comes later: \<open>B\<close> is selected.
\<close>

theorem click_selects_last_owner_witness:
  "search_map 17 [(''A'', [(10, 20)]), (''B'', [(15, 30)]), (''C'', [(40, 50)])] (None, [])
     = (Some ''B'', [(15, 30)])
   \<and> fst (handle_cluster_click 17
       \<lparr>loaded_clusters = {}, cluster_group = [(10, 20)], file_path = Some ''A'',
        file_clusters_map = [(''A'', [(10, 20)]), (''B'', [(15, 30)]), (''C'', [(40, 50)])],
        visible_range = 500, cluster_buttons = []\<rparr>)
     = OtherFileSelected ''B'' [(15, 30)]"
  using click_selects_last_owner [of
       "\<lparr>loaded_clusters = {}, cluster_group = [(10, 20)], file_path = Some ''A'',
        file_clusters_map = [(''A'', [(10, 20)]), (''B'', [(15, 30)]), (''C'', [(40, 50)])],
        visible_range = 500, cluster_buttons = []\<rparr>"
       "[(''A'', [(10, 20)])]" "''B''" "[(15, 30)]" "[(''C'', [(40, 50)])]" 17]
  by simp

text \<open>
  Claim C9. In a map whose paths are distinct and whose files share no cluster: a click
  on a cluster inside the highlighted ranges opens the detail dialog for the highlighted
  file and changes nothing; a click on a cluster inside the ranges stored for another file
  moves the highlight to that file, with exactly the stored ranges, and leaves the map and
  the loaded set as they were; a click on a cluster that no file owns does nothing at all.
\<close>

theorem resolve_click:
  assumes "distinct (map fst (file_clusters_map w))"
    and "cross_file_disjoint (file_clusters_map w)"
  shows "(highlight_consistent w \<and> file_path w = Some p \<and> in_extents c (cluster_group w)
            \<longrightarrow> handle_cluster_click c w = (SameFileDetail c p (cluster_group w), w))
    \<and> ((q, h) \<in> set (file_clusters_map w) \<and> file_path w \<noteq> Some q \<and> in_extents c h
            \<longrightarrow> fst (handle_cluster_click c w) = OtherFileSelected q h
              \<and> file_path (snd (handle_cluster_click c w)) = Some q
              \<and> cluster_group (snd (handle_cluster_click c w)) = h
              \<and> file_clusters_map (snd (handle_cluster_click c w)) = file_clusters_map w
              \<and> loaded_clusters (snd (handle_cluster_click c w)) = loaded_clusters w
              \<and> highlight_consistent (snd (handle_cluster_click c w)))
    \<and> (\<not> in_any_file c (file_clusters_map w)
            \<longrightarrow> handle_cluster_click c w = (Unowned, w))"
proof (intro conjI impI)
  assume a: "highlight_consistent w \<and> file_path w = Some p \<and> in_extents c (cluster_group w)"
  then have g: "cluster_group w = map_get (file_clusters_map w) p"
    by (auto simp: highlight_consistent_def)
  with a have "map_of (file_clusters_map w) p = Some (cluster_group w)"
    by (cases "map_of (file_clusters_map w) p") (auto simp: map_get_def)
  then have "(p, cluster_group w) \<in> set (file_clusters_map w)"
    by (rule map_of_SomeD)
  with assms a have "owners c (file_clusters_map w) = [] @ [(p, cluster_group w)]"
    by (simp add: unique_owner)
  then have "handle_cluster_click c w =
     (if Some p = file_path w then (SameFileDetail c p (cluster_group w), w)
      else (OtherFileSelected p (cluster_group w),
            w\<lparr>cluster_buttons :=
                 restyle (cluster_group w) Yellow
                   (restyle (cluster_group w) Blue (cluster_buttons w)),
               file_path := Some p, cluster_group := cluster_group w\<rparr>))"
    by (rule handle_click_owner)
  with a show "handle_cluster_click c w = (SameFileDetail c p (cluster_group w), w)"
    by simp
next
  assume b: "(q, h) \<in> set (file_clusters_map w) \<and> file_path w \<noteq> Some q \<and> in_extents c h"
  with assms have "owners c (file_clusters_map w) = [] @ [(q, h)]"
    by (simp add: unique_owner)
  then have "handle_cluster_click c w =
     (if Some q = file_path w then (SameFileDetail c q h, w)
      else (OtherFileSelected q h,
            w\<lparr>cluster_buttons :=
                 restyle h Yellow (restyle (cluster_group w) Blue (cluster_buttons w)),
               file_path := Some q, cluster_group := h\<rparr>))"
    by (rule handle_click_owner)
  with b have r: "handle_cluster_click c w =
     (OtherFileSelected q h,
      w\<lparr>cluster_buttons :=
           restyle h Yellow (restyle (cluster_group w) Blue (cluster_buttons w)),
         file_path := Some q, cluster_group := h\<rparr>)"
    by auto
  from b assms(1) have mo: "map_of (file_clusters_map w) q = Some h"
    by simp
  show "fst (handle_cluster_click c w) = OtherFileSelected q h"
    and "file_path (snd (handle_cluster_click c w)) = Some q"
    and "cluster_group (snd (handle_cluster_click c w)) = h"
    and "file_clusters_map (snd (handle_cluster_click c w)) = file_clusters_map w"
    and "loaded_clusters (snd (handle_cluster_click c w)) = loaded_clusters w"
    and "highlight_consistent (snd (handle_cluster_click c w))"
    by (simp_all add: r highlight_consistent_def map_get_def mo)
next
  assume "\<not> in_any_file c (file_clusters_map w)"
  then show "handle_cluster_click c w = (Unowned, w)"
    by (simp add: in_any_file_owners handle_click_unowned)
qed

text \<open>
  The scenario with the files \<open>A\<close> at \<open>[(10, 20)]\<close> and \<open>B\<close> at \<open>[(30, 40)]\<close>, \<open>A\<close>
  highlighted: clicks on the clusters 15, 35 and 25.
\<close>

theorem resolve_click_witness:
  "handle_cluster_click 15
     \<lparr>loaded_clusters = {}, cluster_group = [(10, 20)], file_path = Some ''A'',
      file_clusters_map = [(''A'', [(10, 20)]), (''B'', [(30, 40)])],
      visible_range = 500, cluster_buttons = []\<rparr>
     = (SameFileDetail 15 ''A'' [(10, 20)],
        \<lparr>loaded_clusters = {}, cluster_group = [(10, 20)], file_path = Some ''A'',
         file_clusters_map = [(''A'', [(10, 20)]), (''B'', [(30, 40)])],
         visible_range = 500, cluster_buttons = []\<rparr>)
   \<and> fst (handle_cluster_click 35
       \<lparr>loaded_clusters = {}, cluster_group = [(10, 20)], file_path = Some ''A'',
        file_clusters_map = [(''A'', [(10, 20)]), (''B'', [(30, 40)])],
        visible_range = 500, cluster_buttons = []\<rparr>)
     = OtherFileSelected ''B'' [(30, 40)]
   \<and> handle_cluster_click 25
     \<lparr>loaded_clusters = {}, cluster_group = [(10, 20)], file_path = Some ''A'',
      file_clusters_map = [(''A'', [(10, 20)]), (''B'', [(30, 40)])],
      visible_range = 500, cluster_buttons = []\<rparr>
     = (Unowned,
        \<lparr>loaded_clusters = {}, cluster_group = [(10, 20)], file_path = Some ''A'',
         file_clusters_map = [(''A'', [(10, 20)]), (''B'', [(30, 40)])],
         visible_range = 500, cluster_buttons = []\<rparr>)"
  using
    resolve_click [where c = 15 and p = "''A''" and q = "''B''" and h = "[(30, 40)]" and w =
      "\<lparr>loaded_clusters = {}, cluster_group = [(10, 20)], file_path = Some ''A'',
        file_clusters_map = [(''A'', [(10, 20)]), (''B'', [(30, 40)])],
        visible_range = 500, cluster_buttons = []\<rparr>"]
    resolve_click [where c = 35 and p = "''A''" and q = "''B''" and h = "[(30, 40)]" and w =
      "\<lparr>loaded_clusters = {}, cluster_group = [(10, 20)], file_path = Some ''A'',
        file_clusters_map = [(''A'', [(10, 20)]), (''B'', [(30, 40)])],
        visible_range = 500, cluster_buttons = []\<rparr>"]
    resolve_click [where c = 25 and p = "''A''" and q = "''B''" and h = "[(30, 40)]" and w =
      "\<lparr>loaded_clusters = {}, cluster_group = [(10, 20)], file_path = Some ''A'',
        file_clusters_map = [(''A'', [(10, 20)]), (''B'', [(30, 40)])],
        visible_range = 500, cluster_buttons = []\<rparr>"]
  by (simp add: cross_file_disjoint_def extents_disjoint_def ranges_disjoint_def
      highlight_consistent_def map_get_def)

section \<open>Properties of the extent probe\<close>

lemma list_all2_source:
  "list_all2 P xs ys \<Longrightarrow> y \<in> set ys \<Longrightarrow> \<exists>x\<in>set xs. P x y"
  by (induction rule: list_all2_induct) auto

lemma parse_extent_Inr:
  assumes "parse_extent cluster_data = Inr (s, e)"
  shows "\<exists>cluster_count. 3 < length cluster_data
    \<and> py_int 16 (last cluster_data) = Inr s
    \<and> py_int 16 (cluster_data ! 3) = Inr cluster_count
    \<and> e = s + cluster_count - 1"
  using assms
  by (auto simp: parse_extent_def split: if_splits sum.splits)

lemma parse_extents_Inr:
  "parse_extents chunks acc = Inr result \<Longrightarrow>
   \<exists>rs. result = acc @ rs \<and> list_all2 (\<lambda>cluster_data r. parse_extent cluster_data = Inr r) chunks rs"
proof (induction chunks arbitrary: acc)
  case Nil
  then show ?case by simp
next
  case (Cons cluster_data chunks)
  from Cons.prems obtain r where r: "parse_extent cluster_data = Inr r"
    and rest: "parse_extents chunks (acc @ [r]) = Inr result"
    by (auto split: sum.splits)
  from Cons.IH [OF rest] obtain rs where rs: "result = (acc @ [r]) @ rs"
    "list_all2 (\<lambda>cluster_data r. parse_extent cluster_data = Inr r) chunks rs"
    by blast
  then have "result = acc @ (r # rs)
      \<and> list_all2 (\<lambda>cluster_data r. parse_extent cluster_data = Inr r) (cluster_data # chunks) (r # rs)"
    using r by simp
  then show ?case by blast
qed

text \<open>
  The groups of six: their number, and the words of the group at position \<open>i\<close>.
\<close>

lemma length_chunks6: "length (chunks6 xs) = (length xs + 5) div 6"
proof (induction xs rule: chunks6.induct)
  case (1 xs)
  show ?case
  proof (cases "xs = []")
    case True
    then show ?thesis by (simp add: chunks6.simps)
  next
    case False
    with 1 have "length (chunks6 xs) = Suc ((length xs - 6 + 5) div 6)"
      by (subst chunks6.simps) simp
    also have "\<dots> = (length xs + 5) div 6"
    proof (cases "6 \<le> length xs")
      case True
      then have "length xs + 5 = (length xs - 6 + 5) + 6" by simp
      then have "(length xs + 5) div 6 = Suc ((length xs - 6 + 5) div 6)"
        by (simp only: div_add_self2)
      then show ?thesis by simp
    next
      case small: False
      from False have pos: "Suc 0 \<le> length xs"
        by (cases xs) simp_all
      have "(length xs + 5) div 6 = 1"
      proof (rule div_nat_eqI)
        from pos show "6 * 1 \<le> length xs + 5" by simp
        from small show "length xs + 5 < 6 * Suc 1" by simp
      qed
      moreover from small have "length xs - 6 = 0" by simp
      ultimately show ?thesis by simp
    qed
    finally show ?thesis .
  qed
qed

lemma nth_chunks6:
  "i < length (chunks6 xs) \<Longrightarrow> chunks6 xs ! i = take 6 (drop (6 * i) xs)"
proof (induction xs arbitrary: i rule: chunks6.induct)
  case (1 xs)
  show ?case
  proof (cases "xs = []")
    case True
    with "1.prems" show ?thesis by (simp add: chunks6.simps)
  next
    case False
    then have c: "chunks6 xs = take 6 xs # chunks6 (drop 6 xs)"
      by (subst chunks6.simps) simp
    show ?thesis
    proof (cases i)
      case 0
      then show ?thesis by (simp add: c)
    next
      case (Suc k)
      with "1.prems" c have "k < length (chunks6 (drop 6 xs))"
        by simp
      with False have "chunks6 (drop 6 xs) ! k = take 6 (drop (6 * k) (drop 6 xs))"
        by (rule "1.IH")
      also have "drop (6 * k) (drop 6 xs) = drop (6 * k + 6) xs"
        by (rule drop_drop)
      also have "6 * k + 6 = 6 * i"
        by (simp add: Suc)
      finally show ?thesis
        by (simp add: c Suc)
    qed
  qed
qed

text \<open>
  Two ranges built from runs of at least one cluster are disjoint exactly when the runs
  are; and \<open>ranges_disjoint\<close> says that no cluster lies in both ranges.
\<close>

lemma ranges_disjoint_runs:
  assumes "1 \<le> c" "1 \<le> c'"
  shows "ranges_disjoint (s, s + c - 1) (s', s' + c' - 1) = (s + c \<le> s' \<or> s' + c' \<le> s)"
  using assms by (auto simp: ranges_disjoint_def min_def max_def)

lemma ranges_disjoint_iff:
  "ranges_disjoint r r' = (\<not> (\<exists>c. fst r \<le> c \<and> c \<le> snd r \<and> fst r' \<le> c \<and> c \<le> snd r'))"
proof
  assume d: "ranges_disjoint r r'"
  show "\<not> (\<exists>c. fst r \<le> c \<and> c \<le> snd r \<and> fst r' \<le> c \<and> c \<le> snd r')"
  proof
    assume "\<exists>c. fst r \<le> c \<and> c \<le> snd r \<and> fst r' \<le> c \<and> c \<le> snd r'"
    then obtain c where "fst r \<le> c" "c \<le> snd r" "fst r' \<le> c" "c \<le> snd r'" by blast
    with d show False by (simp add: ranges_disjoint_def)
  qed
next
  assume n: "\<not> (\<exists>c. fst r \<le> c \<and> c \<le> snd r \<and> fst r' \<le> c \<and> c \<le> snd r')"
  show "ranges_disjoint r r'"
  proof (rule ccontr)
    assume "\<not> ranges_disjoint r r'"
    then have "max (fst r) (fst r') \<le> min (snd r) (snd r')"
      by (simp add: ranges_disjoint_def not_less)
    then have "fst r \<le> max (fst r) (fst r') \<and> max (fst r) (fst r') \<le> snd r
        \<and> fst r' \<le> max (fst r) (fst r') \<and> max (fst r) (fst r') \<le> snd r'"
      by (auto simp: min_def max_def split: if_splits)
    with n show False by blast
  qed
qed

text \<open>
  Claim C6, as the code has it. When the probe returns a range at all, the query ended with
  return code 0 and the result has exactly one range for each group of words of the output,
  in order, the groups being cut six words at a time from the start: \<open>n\<close> words give
  \<open>(n + 5) div 6\<close> ranges, and the last group may be shorter than six words, but every group
  has at least four. For the group at position \<open>i\<close> the start \<open>s\<close> is its last word and the
  count is its fourth word, both read as hexadecimal numbers, and the range at position \<open>i\<close>
  is \<open>(s, s + count - 1)\<close>. Hence a range has \<open>s \<le> e\<close> exactly when its count is at least 1,
  and two ranges with counts of at least 1 are disjoint exactly when the reported runs are,
  that is when \<open>s + count \<le> s'\<close> or \<open>s' + count' \<le> s\<close>. The probe checks neither.
\<close>

theorem probe_ranges:
  assumes "get_file_clusters command = result" and "result \<noteq> []"
  shows "\<exists>stdout toks starts counts.
      command = Completed 0 stdout
    \<and> toks = split_ws [] (replace_rn (strip stdout))
    \<and> length result = (length toks + 5) div 6
    \<and> length starts = length result \<and> length counts = length result
    \<and> (\<forall>i<length result.
          3 < length (take 6 (drop (6 * i) toks))
        \<and> py_int 16 (last (take 6 (drop (6 * i) toks))) = Inr (starts ! i)
        \<and> py_int 16 (take 6 (drop (6 * i) toks) ! 3) = Inr (counts ! i)
        \<and> result ! i = (starts ! i, starts ! i + counts ! i - 1)
        \<and> (fst (result ! i) \<le> snd (result ! i)) = (1 \<le> counts ! i))
    \<and> (\<forall>i<length result. \<forall>j<length result. 1 \<le> counts ! i \<and> 1 \<le> counts ! j \<longrightarrow>
          ranges_disjoint (result ! i) (result ! j)
            = (starts ! i + counts ! i \<le> starts ! j \<or> starts ! j + counts ! j \<le> starts ! i))"
proof -
  from assms obtain stdout where c: "command = Completed 0 stdout"
    by (cases command) (auto simp: get_file_clusters_def split: if_splits)
  define toks where "toks = split_ws [] (replace_rn (strip stdout))"
  define starts where "starts = map fst result"
  define counts where "counts = map (\<lambda>r. snd r - fst r + 1) result"
  have g: "get_file_clusters command =
      (if toks = [] \<or> contains no_extents_word (concat toks) then []
       else (case parse_extents (chunks6 toks) [] of Inl e \<Rightarrow> [] | Inr result \<Rightarrow> result))"
    by (simp add: c get_file_clusters_def toks_def)
  from assms have p: "parse_extents (chunks6 toks) [] = Inr result"
    unfolding g by (cases "parse_extents (chunks6 toks) []") (auto split: if_splits)
  from parse_extents_Inr [OF p]
  have la: "list_all2 (\<lambda>cluster_data r. parse_extent cluster_data = Inr r) (chunks6 toks) result"
    by simp
  then have len: "length (chunks6 toks) = length result"
    by (rule list_all2_lengthD)
  then have n: "length result = (length toks + 5) div 6"
    by (simp add: length_chunks6)
  have each: "3 < length (take 6 (drop (6 * i) toks))
        \<and> py_int 16 (last (take 6 (drop (6 * i) toks))) = Inr (starts ! i)
        \<and> py_int 16 (take 6 (drop (6 * i) toks) ! 3) = Inr (counts ! i)
        \<and> result ! i = (starts ! i, starts ! i + counts ! i - 1)
        \<and> (fst (result ! i) \<le> snd (result ! i)) = (1 \<le> counts ! i)"
    if i: "i < length result" for i
  proof -
    from la i len have "parse_extent (chunks6 toks ! i) = Inr (result ! i)"
      by (simp add: list_all2_conv_all_nth)
    moreover from i len have "chunks6 toks ! i = take 6 (drop (6 * i) toks)"
      by (simp add: nth_chunks6)
    ultimately have "parse_extent (take 6 (drop (6 * i) toks)) = Inr (fst (result ! i), snd (result ! i))"
      by simp
    from parse_extent_Inr [OF this] obtain cc where cc:
      "3 < length (take 6 (drop (6 * i) toks))"
      "py_int 16 (last (take 6 (drop (6 * i) toks))) = Inr (fst (result ! i))"
      "py_int 16 (take 6 (drop (6 * i) toks) ! 3) = Inr cc"
      "snd (result ! i) = fst (result ! i) + cc - 1"
      by blast
    from cc(4) i have k: "counts ! i = cc"
      by (simp add: counts_def)
    from i have s: "starts ! i = fst (result ! i)"
      by (simp add: starts_def)
    from cc(4) have r: "result ! i = (fst (result ! i), fst (result ! i) + cc - 1)"
      by (simp add: prod_eq_iff)
    from cc(4) have o: "(fst (result ! i) \<le> snd (result ! i)) = (1 \<le> cc)"
      by auto
    from cc(1,2,3) r o show ?thesis
      unfolding k s by blast
  qed
  have pair: "ranges_disjoint (result ! i) (result ! j)
            = (starts ! i + counts ! i \<le> starts ! j \<or> starts ! j + counts ! j \<le> starts ! i)"
    if "i < length result" "j < length result" "1 \<le> counts ! i \<and> 1 \<le> counts ! j" for i j
  proof -
    from each [OF that(1)] have ri: "result ! i = (starts ! i, starts ! i + counts ! i - 1)"
      by blast
    from each [OF that(2)] have rj: "result ! j = (starts ! j, starts ! j + counts ! j - 1)"
      by blast
    from that(3) show ?thesis
      by (subst ri, subst rj) (simp add: ranges_disjoint_runs)
  qed
  have "length starts = length result" "length counts = length result"
    by (simp_all add: starts_def counts_def)
  with c toks_def n each pair show ?thesis
    by blast
qed

text \<open>
  The output of a file with two adjacent runs of two clusters each, at the clusters 16
  and 18: the ranges are \<open>(16, 17)\<close> and \<open>(18, 19)\<close>.
\<close>

theorem probe_ranges_witness:
  "get_file_clusters
     (Completed 0 ''VCN: 0x0 Clusters: 0x2 LCN: 0x10 VCN: 0x2 Clusters: 0x2 LCN: 0x12'')
     = [(16, 17), (18, 19)]
   \<and> (\<exists>stdout toks starts counts.
      Completed 0 ''VCN: 0x0 Clusters: 0x2 LCN: 0x10 VCN: 0x2 Clusters: 0x2 LCN: 0x12''
        = Completed 0 stdout
    \<and> toks = split_ws [] (replace_rn (strip stdout))
    \<and> length ([(16, 17), (18, 19)] :: (int \<times> int) list) = (length toks + 5) div 6
    \<and> length starts = length ([(16, 17), (18, 19)] :: (int \<times> int) list)
    \<and> length counts = length ([(16, 17), (18, 19)] :: (int \<times> int) list)
    \<and> (\<forall>i<length ([(16, 17), (18, 19)] :: (int \<times> int) list).
          3 < length (take 6 (drop (6 * i) toks))
        \<and> py_int 16 (last (take 6 (drop (6 * i) toks))) = Inr (starts ! i)
        \<and> py_int 16 (take 6 (drop (6 * i) toks) ! 3) = Inr (counts ! i)
        \<and> [(16, 17), (18, 19)] ! i = (starts ! i, starts ! i + counts ! i - 1)
        \<and> (fst (([(16, 17), (18, 19)] :: (int \<times> int) list) ! i) \<le> snd (([(16, 17), (18, 19)] :: (int \<times> int) list) ! i))
            = (1 \<le> counts ! i))
    \<and> (\<forall>i<length ([(16, 17), (18, 19)] :: (int \<times> int) list). \<forall>j<length ([(16, 17), (18, 19)] :: (int \<times> int) list).
          1 \<le> counts ! i \<and> 1 \<le> counts ! j \<longrightarrow>
          ranges_disjoint ([(16, 17), (18, 19)] ! i) ([(16, 17), (18, 19)] ! j)
            = (starts ! i + counts ! i \<le> starts ! j \<or> starts ! j + counts ! j \<le> starts ! i)))"
proof -
  have h: "get_file_clusters
     (Completed 0 ''VCN: 0x0 Clusters: 0x2 LCN: 0x10 VCN: 0x2 Clusters: 0x2 LCN: 0x12'')
     = [(16, 17), (18, 19)]"
    by code_simp
  have n: "([(16, 17), (18, 19)] :: (int \<times> int) list) \<noteq> []"
    by simp
  from h probe_ranges [OF h n] show ?thesis
    by (rule conjI)
qed

text \<open>
  The probe on an output whose words are known, and the numbers of the outputs below.
\<close>

lemma get_file_clusters_parsed:
  assumes "split_ws [] (replace_rn (strip stdout)) = toks" and "toks \<noteq> []"
    and "\<not> contains no_extents_word (concat toks)"
    and "parse_extents (chunks6 toks) [] = Inr result"
  shows "get_file_clusters (Completed 0 stdout) = result"
  using assms by (simp add: get_file_clusters_def)

lemma hex_digit_values:
  "digit_value CHR ''0'' = Some 0" "digit_value CHR ''1'' = Some 1"
  "digit_value CHR ''2'' = Some 2" "digit_value CHR ''f'' = Some 15"
  by (simp_all add: digit_value_def)

lemma py_int_hex_samples:
  "py_int 16 ''0xffffffffffffffff'' = Inr 18446744073709551615"
  "py_int 16 ''0x100'' = Inr 256"
  "py_int 16 ''0x10'' = Inr 16"
  "py_int 16 ''0x20'' = Inr 32"
  by (simp_all add: py_int_def strip_def is_space_def hex_digit_values)

text \<open>
  Claim C6 as stated fails on the code. A record with a count of 0 gives the range
  \<open>(16, 15)\<close>, whose start is above its end. Two records whose runs overlap give the
  overlapping ranges \<open>(16, 19)\<close> and \<open>(18, 19)\<close>. An output that reports two runs at the start
  cluster \<open>0xffffffffffffffff\<close>, the value -1 with which the file system marks a run that
  has no clusters on the disk (a hole of a sparse or compressed file), gives two different
  ranges that begin at the same cluster.
\<close>

theorem probe_ranges_counterexample:
  "get_file_clusters (Completed 0 ''VCN: 0x0 Clusters: 0x0 LCN: 0x10'') = [(16, 15)]
   \<and> get_file_clusters
       (Completed 0 ''VCN: 0x0 Clusters: 0x4 LCN: 0x10 VCN: 0x4 Clusters: 0x2 LCN: 0x12'')
     = [(16, 19), (18, 19)]
   \<and> get_file_clusters
       (Completed 0
         (''VCN: 0x0 Clusters: 0x10 LCN: 0xffffffffffffffff ''
          @ ''VCN: 0x10 Clusters: 0x10 LCN: 0x100 ''
          @ ''VCN: 0x20 Clusters: 0x20 LCN: 0xffffffffffffffff''))
     = [(18446744073709551615, 18446744073709551630), (256, 271),
        (18446744073709551615, 18446744073709551646)]"
proof -
  have a: "get_file_clusters (Completed 0 ''VCN: 0x0 Clusters: 0x0 LCN: 0x10'') = [(16, 15)]"
    by code_simp
  have b: "get_file_clusters
       (Completed 0 ''VCN: 0x0 Clusters: 0x4 LCN: 0x10 VCN: 0x4 Clusters: 0x2 LCN: 0x12'')
     = [(16, 19), (18, 19)]"
    by code_simp
  have t: "split_ws [] (replace_rn (strip
         (''VCN: 0x0 Clusters: 0x10 LCN: 0xffffffffffffffff ''
          @ ''VCN: 0x10 Clusters: 0x10 LCN: 0x100 ''
          @ ''VCN: 0x20 Clusters: 0x20 LCN: 0xffffffffffffffff'')))
     = [''VCN:'', ''0x0'', ''Clusters:'', ''0x10'', ''LCN:'', ''0xffffffffffffffff'',
        ''VCN:'', ''0x10'', ''Clusters:'', ''0x10'', ''LCN:'', ''0x100'',
        ''VCN:'', ''0x20'', ''Clusters:'', ''0x20'', ''LCN:'', ''0xffffffffffffffff'']"
    by code_simp
  have n: "\<not> contains no_extents_word (concat
       [''VCN:'', ''0x0'', ''Clusters:'', ''0x10'', ''LCN:'', ''0xffffffffffffffff'',
        ''VCN:'', ''0x10'', ''Clusters:'', ''0x10'', ''LCN:'', ''0x100'',
        ''VCN:'', ''0x20'', ''Clusters:'', ''0x20'', ''LCN:'', ''0xffffffffffffffff''])"
    by code_simp
  have ch: "chunks6
       [''VCN:'', ''0x0'', ''Clusters:'', ''0x10'', ''LCN:'', ''0xffffffffffffffff'',
        ''VCN:'', ''0x10'', ''Clusters:'', ''0x10'', ''LCN:'', ''0x100'',
        ''VCN:'', ''0x20'', ''Clusters:'', ''0x20'', ''LCN:'', ''0xffffffffffffffff'']
     = [[''VCN:'', ''0x0'', ''Clusters:'', ''0x10'', ''LCN:'', ''0xffffffffffffffff''],
        [''VCN:'', ''0x10'', ''Clusters:'', ''0x10'', ''LCN:'', ''0x100''],
        [''VCN:'', ''0x20'', ''Clusters:'', ''0x20'', ''LCN:'', ''0xffffffffffffffff'']]"
    by code_simp
  have p: "parse_extent [''VCN:'', ''0x0'', ''Clusters:'', ''0x10'', ''LCN:'', ''0xffffffffffffffff'']
      = Inr (18446744073709551615, 18446744073709551630)"
    "parse_extent [''VCN:'', ''0x10'', ''Clusters:'', ''0x10'', ''LCN:'', ''0x100'']
      = Inr (256, 271)"
    "parse_extent [''VCN:'', ''0x20'', ''Clusters:'', ''0x20'', ''LCN:'', ''0xffffffffffffffff'']
      = Inr (18446744073709551615, 18446744073709551646)"
    by (simp_all add: parse_extent_def py_int_hex_samples)
  have c: "get_file_clusters
       (Completed 0
         (''VCN: 0x0 Clusters: 0x10 LCN: 0xffffffffffffffff ''
          @ ''VCN: 0x10 Clusters: 0x10 LCN: 0x100 ''
          @ ''VCN: 0x20 Clusters: 0x20 LCN: 0xffffffffffffffff''))
     = [(18446744073709551615, 18446744073709551630), (256, 271),
        (18446744073709551615, 18446744073709551646)]"
  proof (rule get_file_clusters_parsed [OF t _ n])
    show "[''VCN:'', ''0x0'', ''Clusters:'', ''0x10'', ''LCN:'', ''0xffffffffffffffff'',
        ''VCN:'', ''0x10'', ''Clusters:'', ''0x10'', ''LCN:'', ''0x100'',
        ''VCN:'', ''0x20'', ''Clusters:'', ''0x20'', ''LCN:'', ''0xffffffffffffffff''] \<noteq> []"
      by simp
    show "parse_extents (chunks6
       [''VCN:'', ''0x0'', ''Clusters:'', ''0x10'', ''LCN:'', ''0xffffffffffffffff'',
        ''VCN:'', ''0x10'', ''Clusters:'', ''0x10'', ''LCN:'', ''0x100'',
        ''VCN:'', ''0x20'', ''Clusters:'', ''0x20'', ''LCN:'', ''0xffffffffffffffff'']) []
      = Inr [(18446744073709551615, 18446744073709551630), (256, 271),
        (18446744073709551615, 18446744073709551646)]"
      unfolding ch by (simp add: p)
  qed
  from a b c show ?thesis
    by blast
qed

end
